theory Spec2Isabelle
  imports Complex_Main
begin

section \<open>Numeric values\<close>

text \<open>
  The arrays of \<^verbatim>\<open>shabanipy/dvdi.py\<close> hold IEEE doubles. The routines use not-a-number as
  a mask value and let a division by zero produce an infinity, whose sign depends on the
  sign of the zero; so not-a-number, the two infinities and the negative zero are values
  of the model. \<open>Fin 0\<close> is the positive zero and \<open>NZero\<close> the negative one. Any other
  finite double is modelled by the real number it denotes: rounding, overflow and
  underflow are outside the model.
\<close>

datatype fl = NaN | NInf | NZero | Fin real | PInf

fun fl_neg :: "fl \<Rightarrow> fl" where
  "fl_neg NaN = NaN"
| "fl_neg NInf = PInf"
| "fl_neg NZero = Fin 0"
| "fl_neg (Fin r) = (if r = 0 then NZero else Fin (- r))"
| "fl_neg PInf = NInf"

fun fl_abs :: "fl \<Rightarrow> fl" where
  "fl_abs NaN = NaN"
| "fl_abs NInf = PInf"
| "fl_abs NZero = Fin 0"
| "fl_abs (Fin r) = Fin \<bar>r\<bar>"
| "fl_abs PInf = PInf"

text \<open>
  Addition. A sum of finite values that is zero is the positive zero (rounding to
  nearest), except that the sum of two negative zeros is the negative zero.
\<close>

fun fl_add :: "fl \<Rightarrow> fl \<Rightarrow> fl" where
  "fl_add NaN _ = NaN"
| "fl_add _ NaN = NaN"
| "fl_add PInf NInf = NaN"
| "fl_add NInf PInf = NaN"
| "fl_add PInf _ = PInf"
| "fl_add _ PInf = PInf"
| "fl_add NInf _ = NInf"
| "fl_add _ NInf = NInf"
| "fl_add NZero NZero = NZero"
| "fl_add NZero (Fin b) = Fin b"
| "fl_add (Fin a) NZero = Fin a"
| "fl_add (Fin a) (Fin b) = Fin (a + b)"

definition fl_sub :: "fl \<Rightarrow> fl \<Rightarrow> fl" where
  "fl_sub a b = fl_add a (fl_neg b)"

text \<open>The sign bit, and the classes of values that division tells apart.\<close>

fun sign_bit :: "fl \<Rightarrow> bool" where
  "sign_bit NaN = False"
| "sign_bit NInf = True"
| "sign_bit NZero = True"
| "sign_bit (Fin r) = (r < 0)"
| "sign_bit PInf = False"

fun is_inf :: "fl \<Rightarrow> bool" where
  "is_inf NInf = True"
| "is_inf PInf = True"
| "is_inf _ = False"

fun is_zero :: "fl \<Rightarrow> bool" where
  "is_zero NZero = True"
| "is_zero (Fin r) = (r = 0)"
| "is_zero _ = False"

fun real_of :: "fl \<Rightarrow> real" where
  "real_of (Fin r) = r"
| "real_of _ = 0"

definition signed_inf :: "bool \<Rightarrow> fl" where
  "signed_inf negative = (if negative then NInf else PInf)"

definition signed_zero :: "bool \<Rightarrow> fl" where
  "signed_zero negative = (if negative then NZero else Fin 0)"

text \<open>
  Division never raises: 0/0 and inf/inf are not-a-number, a non-zero value over a zero
  is an infinity, and the sign of a zero or infinite quotient is the exclusive or of the
  operands' signs.
\<close>

definition fl_div :: "fl \<Rightarrow> fl \<Rightarrow> fl" where
  "fl_div a b =
     (if a = NaN \<or> b = NaN then NaN
      else if is_inf a then (if is_inf b then NaN else signed_inf (sign_bit a \<noteq> sign_bit b))
      else if is_inf b then signed_zero (sign_bit a \<noteq> sign_bit b)
      else if is_zero b then
             (if is_zero a then NaN else signed_inf (sign_bit a \<noteq> sign_bit b))
      else if is_zero a then signed_zero (sign_bit a \<noteq> sign_bit b)
      else Fin (real_of a / real_of b))"

text \<open>
  Comparisons: every comparison with not-a-number is false, and the two zeros are equal.
\<close>

fun fl_less :: "fl \<Rightarrow> fl \<Rightarrow> bool" where
  "fl_less NaN _ = False"
| "fl_less _ NaN = False"
| "fl_less NInf NInf = False"
| "fl_less NInf _ = True"
| "fl_less _ NInf = False"
| "fl_less PInf _ = False"
| "fl_less _ PInf = True"
| "fl_less NZero NZero = False"
| "fl_less NZero (Fin b) = (0 < b)"
| "fl_less (Fin a) NZero = (a < 0)"
| "fl_less (Fin a) (Fin b) = (a < b)"

fun fl_eq :: "fl \<Rightarrow> fl \<Rightarrow> bool" where
  "fl_eq NaN _ = False"
| "fl_eq _ NaN = False"
| "fl_eq NZero NZero = True"
| "fl_eq NZero (Fin b) = (b = 0)"
| "fl_eq (Fin a) NZero = (a = 0)"
| "fl_eq a b = (a = b)"

definition fl_le :: "fl \<Rightarrow> fl \<Rightarrow> bool" where
  "fl_le a b = (fl_less a b \<or> fl_eq a b)"

definition float_max :: real where
  "float_max = (2 - 1 / 2 ^ 52) * 2 ^ 1023"

text \<open>\<^verbatim>\<open>np.nan_to_num\<close>: not-a-number becomes 0, an infinity the largest finite double.\<close>

fun nan_to_num :: "fl \<Rightarrow> fl" where
  "nan_to_num NaN = Fin 0"
| "nan_to_num PInf = Fin float_max"
| "nan_to_num NInf = Fin (- float_max)"
| "nan_to_num v = v"

text \<open>
  \<^verbatim>\<open>np.nanmin\<close> and \<^verbatim>\<open>np.nanmax\<close> reduce with \<^verbatim>\<open>fmin\<close> and \<^verbatim>\<open>fmax\<close>, which return the
  other operand when one is not-a-number; the reduction of a slice that holds nothing
  else is not-a-number.
\<close>

definition np_fmin :: "fl \<Rightarrow> fl \<Rightarrow> fl" where
  "np_fmin a b = (if a = NaN then b else if b = NaN then a else if fl_less b a then b else a)"

definition np_fmax :: "fl \<Rightarrow> fl \<Rightarrow> fl" where
  "np_fmax a b = (if a = NaN then b else if b = NaN then a else if fl_less a b then b else a)"

fun np_nanmin :: "fl list \<Rightarrow> fl" where
  "np_nanmin [] = NaN"
| "np_nanmin (v # vs) = fold (\<lambda>w acc. np_fmin acc w) vs v"

fun np_nanmax :: "fl list \<Rightarrow> fl" where
  "np_nanmax [] = NaN"
| "np_nanmax (v # vs) = fold (\<lambda>w acc. np_fmax acc w) vs v"

text \<open>The greatest element of a list without not-a-number.\<close>

fun fl_max_list :: "fl list \<Rightarrow> fl" where
  "fl_max_list [] = NaN"
| "fl_max_list [v] = v"
| "fl_max_list (v # w # vs) = (let m = fl_max_list (w # vs) in if fl_less v m then m else v)"

text \<open>\<^verbatim>\<open>np.argmax\<close> of a boolean slice: the first true position, 0 when there is none.\<close>

definition np_argmax_bool :: "bool list \<Rightarrow> nat" where
  "np_argmax_bool bs = (if True \<in> set bs then length (takeWhile Not bs) else 0)"

section \<open>Errors and arrays\<close>

text \<open>
  Errors are the Python exception classes. \<open>ValueError\<close> is what
  \<^verbatim>\<open>extract_switching_current\<close> raises itself for an unknown \<open>side\<close>, and also what the
  numeric library raises for operands whose shapes do not fit and for a reduction
  (\<^verbatim>\<open>nanmin\<close>, \<^verbatim>\<open>argmax\<close>) over an axis of length 0. \<open>IndexError\<close> is raised for a position
  outside an array.
\<close>

datatype error = ValueError | IndexError

text \<open>
  An array swept along its last axis: its shape (the length of the swept axis last) and
  its slices along that axis, the rows, in the order of the leading index (the last
  leading index runs fastest). A one-dimensional array of \<open>n\<close> samples has shape \<open>[n]\<close>
  and one row.
\<close>

record ndarray =
  shape :: "nat list"
  rows :: "fl list list"

definition well_formed :: "ndarray \<Rightarrow> bool" where
  "well_formed a =
     (shape a \<noteq> [] \<and> length (rows a) = prod_list (butlast (shape a))
      \<and> list_all (\<lambda>r. length r = last (shape a)) (rows a))"

text \<open>
  An array of numbers without a distinguished axis, as the routines return it: its shape
  and its elements in the same order. A scalar has shape \<open>[]\<close> and one element.
\<close>

datatype nd = Nd (nd_shape: "nat list") (nd_data: "fl list")

text \<open>
  Broadcasting of two shapes: they are aligned at the right, the shorter one filled with
  ones; two lengths fit when they are equal or one of them is 1. The library raises
  \<^verbatim>\<open>ValueError\<close> for shapes that do not fit.
\<close>

definition pad_shape :: "nat \<Rightarrow> nat list \<Rightarrow> nat list" where
  "pad_shape n s = replicate (n - length s) 1 @ s"

definition broadcast_shapes :: "nat list \<Rightarrow> nat list \<Rightarrow> nat list option" where
  "broadcast_shapes a b =
     (let n = max (length a) (length b);
          a' = pad_shape n a;
          b' = pad_shape n b
      in if list_all2 (\<lambda>da db. da = db \<or> da = 1 \<or> db = 1) a' b'
         then Some (map2 (\<lambda>da db. if da = 1 then db else da) a' b')
         else None)"

text \<open>All indices of an array of a given shape, in the order of its elements.\<close>

fun indices :: "nat list \<Rightarrow> nat list list" where
  "indices [] = [[]]"
| "indices (d # ds) = concat (map (\<lambda>i. map ((#) i) (indices ds)) [0..<d])"

text \<open>
  The position, among the elements of an operand of shape \<open>s\<close>, that the index \<open>idx\<close> of
  the broadcast result reads: the index is aligned at the right, and along an axis of
  length 1 the only element is read.
\<close>

definition flat_index :: "nat list \<Rightarrow> nat list \<Rightarrow> nat" where
  "flat_index s idx =
     foldl (\<lambda>acc (d, i). acc * d + (if d = 1 then 0 else i)) 0
       (zip s (drop (length idx - length s) idx))"

text \<open>Indexing one row at a position that may be negative, as \<^verbatim>\<open>take_along_axis\<close> does.\<close>

definition take_along :: "'a list \<Rightarrow> int \<Rightarrow> error + 'a" where
  "take_along xs i =
     (let n = int (length xs); j = (if i < 0 then i + n else i)
      in if 0 \<le> j \<and> j < n then Inr (xs ! nat j) else Inl IndexError)"

fun collect :: "(error + 'a) list \<Rightarrow> error + 'a list" where
  "collect [] = Inr []"
| "collect (Inl e # rs) = Inl e"
| "collect (Inr v # rs) = (case collect rs of Inl e \<Rightarrow> Inl e | Inr vs \<Rightarrow> Inr (v # vs))"

section \<open>Switching-current extraction\<close>

text \<open>Lines 95 to 98 of \<^verbatim>\<open>find_rising_edge\<close>: the threshold of one slice.\<close>

definition threshold_of :: "fl list \<Rightarrow> fl option \<Rightarrow> fl" where
  "threshold_of y threshold =
     (case threshold of
        None \<Rightarrow> fl_div (fl_add (np_nanmin y) (np_nanmax y)) (Fin 2)
      | Some t \<Rightarrow> t)"

text \<open>Line 99 on one slice: the first position above the slice's threshold.\<close>

definition rising_index :: "fl list \<Rightarrow> fl \<Rightarrow> int" where
  "rising_index y thr = int (np_argmax_bool (map (\<lambda>v. fl_less thr v) y))"

text \<open>Line 100 on one slice.\<close>

definition edge_x1 :: "fl list \<Rightarrow> fl list \<Rightarrow> fl \<Rightarrow> error + fl" where
  "edge_x1 x y thr = take_along x (rising_index y thr)"

text \<open>
  Lines 102 to 104 on one slice: the sample before the crossing, read at the crossing
  index minus one, and the value at the crossing: \<open>(x0, y0, y1)\<close>.
\<close>

definition edge_points :: "fl list \<Rightarrow> fl list \<Rightarrow> fl \<Rightarrow> error + fl \<times> fl \<times> fl" where
  "edge_points x y thr =
     (case take_along x (rising_index y thr - 1) of
        Inl e \<Rightarrow> Inl e
      | Inr x0 \<Rightarrow>
          (case take_along y (rising_index y thr - 1) of
             Inl e \<Rightarrow> Inl e
           | Inr y0 \<Rightarrow>
               (case take_along y (rising_index y thr) of
                  Inl e \<Rightarrow> Inl e
                | Inr y1 \<Rightarrow> Inr (x0, y0, y1))))"

text \<open>Lines 105 and 106 on one element: \<open>t\<close> is the threshold that broadcasting pairs
  with the element.\<close>

definition interpolate :: "fl \<Rightarrow> fl \<times> fl \<times> fl \<Rightarrow> fl \<Rightarrow> fl" where
  "interpolate x1 p t =
     (case p of (x0, y0, y1) \<Rightarrow>
        let dydx = fl_div (fl_sub y1 y0) (fl_sub x1 x0)
        in fl_add x0 (fl_div (fl_sub t y0) dydx))"

text \<open>
  Line 106, \<^verbatim>\<open>np.squeeze(threshold)\<close>: a threshold given by the caller is a scalar; the
  inferred thresholds form an array with one element for each slice, from whose shape
  \<^verbatim>\<open>squeeze\<close> removes every axis of length 1.
\<close>

definition squeezed_shape :: "nat list \<Rightarrow> fl option \<Rightarrow> nat list" where
  "squeezed_shape lead threshold =
     (case threshold of None \<Rightarrow> filter (\<lambda>d. d \<noteq> 1) lead | Some t \<Rightarrow> [])"

definition squeezed_threshold :: "nat list \<Rightarrow> fl list \<Rightarrow> fl option \<Rightarrow> nd" where
  "squeezed_threshold lead thr threshold =
     Nd (squeezed_shape lead threshold) (case threshold of None \<Rightarrow> thr | Some t \<Rightarrow> [t])"

text \<open>
  \<^verbatim>\<open>find_rising_edge\<close>. The reductions raise when the swept axis is empty. The crossing
  index, \<open>x1\<close>, \<open>x0\<close>, \<open>y0\<close> and \<open>y1\<close> are found slice by slice. The last line combines
  them with the squeezed threshold by broadcasting, which decides the shape of the result
  and which threshold meets which slice.
\<close>

definition find_rising_edge :: "ndarray \<Rightarrow> ndarray \<Rightarrow> fl option \<Rightarrow> bool \<Rightarrow> error + nd" where
  "find_rising_edge x y threshold interp =
     (if shape y = [] \<or> last (shape y) = 0 then Inl ValueError
      else
        let lead = butlast (shape y);
            thr = map (\<lambda>yr. threshold_of yr threshold) (rows y);
            slices = zip (rows x) (zip (rows y) thr)
        in case collect (map (\<lambda>(xr, yr, t). edge_x1 xr yr t) slices) of
             Inl e \<Rightarrow> Inl e
           | Inr x1 \<Rightarrow>
               if interp then
                 (case collect (map (\<lambda>(xr, yr, t). edge_points xr yr t) slices) of
                    Inl e \<Rightarrow> Inl e
                  | Inr pts \<Rightarrow>
                      let sq = squeezed_threshold lead thr threshold
                      in case broadcast_shapes (nd_shape sq) lead of
                           None \<Rightarrow> Inl ValueError
                         | Some out_shape \<Rightarrow>
                             Inr (Nd out_shape
                                   (map (\<lambda>idx. interpolate (x1 ! flat_index lead idx)
                                                  (pts ! flat_index lead idx)
                                                  (nd_data sq ! flat_index (nd_shape sq) idx))
                                      (indices out_shape))))
               else Inr (Nd lead x1))"

text \<open>The two masked arrays handed to \<^verbatim>\<open>find_rising_edge\<close> (lines 63 and 70), per slice.\<close>

definition mask_positive :: "fl list \<Rightarrow> fl list \<Rightarrow> fl list" where
  "mask_positive b d = map2 (\<lambda>bv dv. if fl_le (Fin 0) bv then dv else NaN) b d"

definition mask_negative :: "fl list \<Rightarrow> fl list \<Rightarrow> fl list" where
  "mask_negative b d = rev (map2 (\<lambda>bv dv. if fl_le bv (Fin 0) then fl_abs dv else NaN) b d)"

text \<open>Line 59 on one slice: \<^verbatim>\<open>dvdi -= offset\<close>.\<close>

definition minus_offset :: "fl list \<Rightarrow> fl \<Rightarrow> fl list" where
  "minus_offset d offset = map (\<lambda>v. fl_sub v offset) d"

text \<open>
  The caller's two arrays are the state: \<^verbatim>\<open>dvdi -= offset\<close> writes into the caller's
  array, so the function returns the arrays as it leaves them, next to its result or error.
  The model covers \<open>bias\<close> and \<open>dvdi\<close> of the same shape, as the docstring requires; for
  any other pair it answers with the \<^verbatim>\<open>ValueError\<close> the library raises for shapes that do
  not fit.
\<close>

record arrays =
  bias :: ndarray
  dvdi :: ndarray

datatype ic_result = Branch nd | Stacked "nd list"

definition ic_positive :: "arrays \<Rightarrow> fl option \<Rightarrow> bool \<Rightarrow> error + nd" where
  "ic_positive s threshold interp =
     (case find_rising_edge (bias s)
             \<lparr>shape = shape (bias s),
              rows = map2 mask_positive (rows (bias s)) (rows (dvdi s))\<rparr>
             threshold interp of
        Inl e \<Rightarrow> Inl e
      | Inr ic_p \<Rightarrow> Inr (Nd (nd_shape ic_p) (map nan_to_num (nd_data ic_p))))"

definition ic_negative :: "arrays \<Rightarrow> fl option \<Rightarrow> bool \<Rightarrow> error + nd" where
  "ic_negative s threshold interp =
     (case find_rising_edge \<lparr>shape = shape (bias s), rows = map rev (rows (bias s))\<rparr>
             \<lparr>shape = shape (bias s),
              rows = map2 mask_negative (rows (bias s)) (rows (dvdi s))\<rparr>
             threshold interp of
        Inl e \<Rightarrow> Inl e
      | Inr ic_n \<Rightarrow> Inr (Nd (nd_shape ic_n) (map nan_to_num (nd_data ic_n))))"

definition extract_switching_current ::
  "string \<Rightarrow> fl option \<Rightarrow> bool \<Rightarrow> fl \<Rightarrow> arrays \<Rightarrow> (error + ic_result) \<times> arrays" where
  "extract_switching_current side threshold interp offset s =
     (if side \<notin> {''positive'', ''negative'', ''both''} then (Inl ValueError, s)
      else
        let s' = s\<lparr>dvdi := (dvdi s)\<lparr>rows := map (\<lambda>d. minus_offset d offset) (rows (dvdi s))\<rparr>\<rparr>
        in if shape (bias s') \<noteq> shape (dvdi s') then (Inl ValueError, s')
           else if side = ''positive'' then
             (case ic_positive s' threshold interp of
                Inl e \<Rightarrow> (Inl e, s')
              | Inr ic_p \<Rightarrow> (Inr (Branch ic_p), s'))
           else if side = ''negative'' then
             (case ic_negative s' threshold interp of
                Inl e \<Rightarrow> (Inl e, s')
              | Inr ic_n \<Rightarrow> (Inr (Branch ic_n), s'))
           else
             (case ic_positive s' threshold interp of
                Inl e \<Rightarrow> (Inl e, s')
              | Inr ic_p \<Rightarrow>
                  (case ic_negative s' threshold interp of
                     Inl e \<Rightarrow> (Inl e, s')
                   | Inr ic_n \<Rightarrow> (Inr (Stacked [ic_n, ic_p]), s'))))"

section \<open>Fraunhofer pattern utilities\<close>

text \<open>
  \<^verbatim>\<open>shabanipy/jj/fraunhofer/utils.py\<close>. The field and critical-current samples are
  measured values: finite numbers, modelled as reals. The arrays are one-dimensional.
\<close>

text \<open>\<^verbatim>\<open>np.argmin\<close> and \<^verbatim>\<open>np.argmax\<close>: the first position of the least (greatest) element.\<close>

definition np_argmin :: "real list \<Rightarrow> nat" where
  "np_argmin xs = length (takeWhile (\<lambda>v. v \<noteq> min_list xs) xs)"

definition np_argmax :: "fl list \<Rightarrow> nat" where
  "np_argmax ys = length (takeWhile (\<lambda>v. v \<noteq> fl_max_list ys) ys)"

subsection \<open>Symmetrization\<close>

text \<open>Lines 144 to 146: bring the field into increasing order.\<close>

definition ascending :: "real list \<Rightarrow> real list \<Rightarrow> real list \<times> real list" where
  "ascending field ic = (if field ! 0 > field ! 1 then (rev field, rev ic) else (field, ic))"

text \<open>Lines 148 to 165: the side that is kept, with its segment of \<open>field\<close> and of \<open>ic\<close>.\<close>

definition kept_side :: "real list \<Rightarrow> real list \<Rightarrow> string \<times> real list \<times> real list" where
  "kept_side field ic =
     (let index = np_argmin (map abs field)
      in if index = 0 then (''positive'', field, ic)
         else if index = length field - 1 then (''negative'', field, ic)
         else if length (take index field) > length (drop (index + 1) field)
              then (''negative'', take (index + 1) field, take (index + 1) ic)
              else (''positive'', drop index field, drop index ic))"

text \<open>Lines 167 to 176: the kept segment and its reflection, without the pivot twice.\<close>

definition mirror :: "string \<Rightarrow> real list \<Rightarrow> real list \<Rightarrow> real list \<times> real list" where
  "mirror side f i =
     (if side = ''positive''
      then (map uminus (rev (tl f)) @ f, rev (tl i) @ i)
      else (f @ map uminus (rev (butlast f)), i @ rev (butlast i)))"

text \<open>
  \<^verbatim>\<open>symmetrize_fraunhofer\<close>. Reading \<^verbatim>\<open>field[1]\<close> raises \<^verbatim>\<open>IndexError\<close> on a field of
  fewer than two samples.
\<close>

definition symmetrize_fraunhofer :: "real list \<Rightarrow> real list \<Rightarrow> error + real list \<times> real list" where
  "symmetrize_fraunhofer field ic =
     (if length field < 2 then Inl IndexError
      else
        case ascending field ic of
          (field1, ic1) \<Rightarrow>
            (case kept_side field1 ic1 of
               (side, f, i) \<Rightarrow> Inr (mirror side f i)))"

subsection \<open>Center finding\<close>

text \<open>Python's \<^verbatim>\<open>round\<close> of a float: to the nearest integer, a tie to the even one.\<close>

definition py_round :: "real \<Rightarrow> int" where
  "py_round x =
     (let f = \<lfloor>x\<rfloor>; r = x - of_int f
      in if r < 1 / 2 then f else if 1 / 2 < r then f + 1 else if even f then f else f + 1)"

text \<open>A Python slice \<^verbatim>\<open>xs[start:stop]\<close>: a negative bound counts from the end, and a bound
  outside the list is clamped.\<close>

definition py_slice :: "'a list \<Rightarrow> int \<Rightarrow> int \<Rightarrow> 'a list" where
  "py_slice xs start stop =
     (let n = int (length xs);
          clamp = (\<lambda>k. if k < 0 then max 0 (k + n) else min k n)
      in drop (nat (clamp start)) (take (nat (clamp stop)) xs))"

text \<open>Lines 62 to 67: the position of the peak, inside \<open>field_lim\<close> when it is given.\<close>

definition peak_location :: "real list \<Rightarrow> real list \<Rightarrow> (real \<times> real) option \<Rightarrow> error + nat" where
  "peak_location field ic field_lim =
     (case field_lim of
        Some (lo, hi) \<Rightarrow>
          if length field \<noteq> length ic then Inl ValueError
          else if ic = [] then Inl ValueError
          else Inr (np_argmax (map2 (\<lambda>f c. if lo < f \<and> f < hi then Fin c else NInf) field ic))
      | None \<Rightarrow>
          if ic = [] then Inl ValueError else Inr (np_argmax (map Fin ic)))"

text \<open>
  Lines 68 and 69. \<^verbatim>\<open>peak_widths\<close> belongs to the signal-processing library; it is a
  parameter of the model: \<open>peak_widths ic max_loc\<close> is the width it reports for the peak
  at \<open>max_loc\<close>.
\<close>

definition width_index_of :: "(real list \<Rightarrow> nat \<Rightarrow> real) \<Rightarrow> real list \<Rightarrow> nat \<Rightarrow> int" where
  "width_index_of peak_widths ic max_loc = py_round (peak_widths ic max_loc * (65 / 100))"

text \<open>Line 70.\<close>

definition start_index_of :: "nat \<Rightarrow> int \<Rightarrow> int" where
  "start_index_of max_loc width_index = max 0 (int max_loc - width_index)"

text \<open>
  \<^verbatim>\<open>find_fraunhofer_center\<close>. The Gaussian model of the fitting library is a parameter:
  \<open>gaussian_fit subset_ic subset_field\<close> is the result of guessing the parameters and
  fitting, whatever that is, and \<open>center_of\<close> reads the fitted center from it. With
  \<open>return_fit\<close> the result carries the field window as \<^verbatim>\<open>xdata\<close>. Plotting under
  \<open>debug\<close> does not touch the result.
\<close>

datatype 'fit center_result = FitResult 'fit "real list" | Center real

definition find_fraunhofer_center ::
  "(real list \<Rightarrow> nat \<Rightarrow> real) \<Rightarrow> (real list \<Rightarrow> real list \<Rightarrow> 'fit) \<Rightarrow> ('fit \<Rightarrow> real)
   \<Rightarrow> real list \<Rightarrow> real list \<Rightarrow> (real \<times> real) option \<Rightarrow> bool \<Rightarrow> error + 'fit center_result" where
  "find_fraunhofer_center peak_widths gaussian_fit center_of field ic field_lim return_fit =
     (case peak_location field ic field_lim of
        Inl e \<Rightarrow> Inl e
      | Inr max_loc \<Rightarrow>
          let width_index = width_index_of peak_widths ic max_loc;
              start_index = start_index_of max_loc width_index;
              subset_field = py_slice field start_index (int max_loc + width_index + 1);
              subset_ic = py_slice ic start_index (int max_loc + width_index + 1);
              out = gaussian_fit subset_ic subset_field
          in if return_fit then Inr (FitResult out subset_field)
             else Inr (Center (center_of out)))"

section \<open>Properties of the switching-current extraction\<close>

subsection \<open>Auxiliary facts\<close>

lemmas eval_defs = extract_switching_current_def ic_positive_def ic_negative_def
  find_rising_edge_def edge_x1_def edge_points_def rising_index_def interpolate_def
  squeezed_threshold_def squeezed_shape_def broadcast_shapes_def pad_shape_def flat_index_def threshold_of_def
  mask_positive_def mask_negative_def np_argmax_bool_def take_along_def fl_sub_def fl_le_def
  fl_div_def signed_inf_def signed_zero_def minus_offset_def np_fmin_def np_fmax_def Let_def

lemma collect_all_Inr:
  assumes "\<And>z. z \<in> set zs \<Longrightarrow> \<exists>v. f z = Inr v"
  shows "\<exists>vs. collect (map f zs) = Inr vs"
  using assms
proof (induction zs)
  case Nil
  then show ?case by simp
next
  case (Cons z zs)
  from Cons.prems obtain v where v: "f z = Inr v" by auto
  from Cons obtain vs where "collect (map f zs) = Inr vs" by auto
  with v show ?case by simp
qed

lemma np_argmax_bool_less: "bs \<noteq> [] \<Longrightarrow> np_argmax_bool bs < length bs"
proof (cases "True \<in> set bs")
  case True
  then have "takeWhile Not bs \<noteq> bs" by auto
  moreover have "length (takeWhile Not bs) \<le> length bs" by (rule length_takeWhile_le)
  ultimately have "length (takeWhile Not bs) < length bs"
    by (metis le_neq_implies_less takeWhile_eq_take take_all order_refl)
  with True show ?thesis by (simp add: np_argmax_bool_def)
next
  case False
  assume "bs \<noteq> []"
  with False show ?thesis by (simp add: np_argmax_bool_def)
qed

lemma take_along_ok:
  "- int (length xs) \<le> i \<Longrightarrow> i < int (length xs) \<Longrightarrow> \<exists>v. take_along xs i = Inr v"
  by (simp add: take_along_def Let_def)

lemma rising_index_range:
  "y \<noteq> [] \<Longrightarrow> 0 \<le> rising_index y thr \<and> rising_index y thr < int (length y)"
  using np_argmax_bool_less [of "map (\<lambda>v. fl_less thr v) y"]
  by (simp add: rising_index_def)

lemma slice_ok:
  assumes "yr \<noteq> []" and "length xr = length yr"
  shows "\<exists>v. edge_x1 xr yr t = Inr v" and "\<exists>p. edge_points xr yr t = Inr p"
proof -
  from rising_index_range [OF assms(1), of t]
  have r: "0 \<le> rising_index yr t" "rising_index yr t < int (length yr)" by simp_all
  from r assms(2) show "\<exists>v. edge_x1 xr yr t = Inr v"
    unfolding edge_x1_def by (intro take_along_ok) simp_all
  from r assms(2) obtain x0 where x0: "take_along xr (rising_index yr t - 1) = Inr x0"
    using take_along_ok [of xr "rising_index yr t - 1"] by auto
  from r obtain y0 where y0: "take_along yr (rising_index yr t - 1) = Inr y0"
    using take_along_ok [of yr "rising_index yr t - 1"] by auto
  from r obtain y1 where y1: "take_along yr (rising_index yr t) = Inr y1"
    using take_along_ok [of yr "rising_index yr t"] by auto
  from x0 y0 y1 show "\<exists>p. edge_points xr yr t = Inr p"
    by (simp add: edge_points_def)
qed

lemma fre_result:
  assumes "shape y \<noteq> []" and "last (shape y) \<noteq> 0"
    and "list_all2 (\<lambda>xr yr. length xr = length yr \<and> yr \<noteq> []) (rows x) (rows y)"
  shows "(find_rising_edge x y threshold interp = Inl ValueError)
           = (interp \<and> broadcast_shapes (squeezed_shape (butlast (shape y)) threshold)
                          (butlast (shape y)) = None)"
    and "find_rising_edge x y threshold interp \<noteq> Inl IndexError"
proof -
  let ?thr = "map (\<lambda>yr. threshold_of yr threshold) (rows y)"
  let ?slices = "zip (rows x) (zip (rows y) ?thr)"
  have sl: "length xr = length yr \<and> yr \<noteq> []" if "(xr, yr, t) \<in> set ?slices" for xr yr t
  proof -
    from that have "(xr, yr) \<in> set (zip (rows x) (rows y))"
      by (auto simp: set_zip)
    with assms(3) show ?thesis by (auto simp: list_all2_iff)
  qed
  have a1: "\<exists>v. (\<lambda>(xr, yr, t). edge_x1 xr yr t) z = Inr v" if z: "z \<in> set ?slices" for z
  proof -
    obtain xr yr t where e: "z = (xr, yr, t)" by (cases z) auto
    from sl [of xr yr t] z e have "length xr = length yr" "yr \<noteq> []" by simp_all
    from slice_ok(1) [OF this(2) this(1), of t] e show ?thesis by simp
  qed
  from collect_all_Inr [where f = "\<lambda>(xr, yr, t). edge_x1 xr yr t" and zs = ?slices, OF a1]
  obtain x1
    where x1: "collect (map (\<lambda>(xr, yr, t). edge_x1 xr yr t) ?slices) = Inr x1" by blast
  have a2: "\<exists>v. (\<lambda>(xr, yr, t). edge_points xr yr t) z = Inr v" if z: "z \<in> set ?slices" for z
  proof -
    obtain xr yr t where e: "z = (xr, yr, t)" by (cases z) auto
    from sl [of xr yr t] z e have "length xr = length yr" "yr \<noteq> []" by simp_all
    from slice_ok(2) [OF this(2) this(1), of t] e show ?thesis by simp
  qed
  from collect_all_Inr [where f = "\<lambda>(xr, yr, t). edge_points xr yr t" and zs = ?slices, OF a2]
  obtain pts
    where pts: "collect (map (\<lambda>(xr, yr, t). edge_points xr yr t) ?slices) = Inr pts" by blast
  from assms(1,2) x1 pts
  show "(find_rising_edge x y threshold interp = Inl ValueError)
           = (interp \<and> broadcast_shapes (squeezed_shape (butlast (shape y)) threshold)
                          (butlast (shape y)) = None)"
    by (simp add: find_rising_edge_def Let_def squeezed_threshold_def split: option.splits)
  from assms(1,2) x1 pts
  show "find_rising_edge x y threshold interp \<noteq> Inl IndexError"
    by (simp add: find_rising_edge_def Let_def squeezed_threshold_def split: option.splits)
qed

lemma fre_empty_axis:
  "shape y = [] \<or> last (shape y) = 0 \<Longrightarrow> find_rising_edge x y threshold interp = Inl ValueError"
  by (simp add: find_rising_edge_def)

lemma masked_rows:
  assumes "length bs = length ds"
    and "list_all (\<lambda>r. length r = n) bs" and "list_all (\<lambda>r. length r = n) ds" and "n \<noteq> 0"
  shows "list_all2 (\<lambda>xr yr. length xr = length yr \<and> yr \<noteq> []) bs (map2 mask_positive bs ds)"
    and "list_all2 (\<lambda>xr yr. length xr = length yr \<and> yr \<noteq> []) (map rev bs)
           (map2 mask_negative bs ds)"
proof -
  have len: "length (bs ! i) = n \<and> length (ds ! i) = n" if "i < length bs" for i
    using that assms(1,2,3) by (simp add: list_all_length)
  show "list_all2 (\<lambda>xr yr. length xr = length yr \<and> yr \<noteq> []) bs (map2 mask_positive bs ds)"
    unfolding list_all2_conv_all_nth
  proof (intro conjI allI impI)
    show "length bs = length (map2 mask_positive bs ds)" using assms(1) by simp
  next
    fix i assume i: "i < length bs"
    with assms(1) len [OF i] assms(4)
    show "length (bs ! i) = length (map2 mask_positive bs ds ! i)"
      by (simp add: mask_positive_def)
  next
    fix i assume i: "i < length bs"
    with assms(1) len [OF i] assms(4)
    have "length (map2 mask_positive bs ds ! i) = n" by (simp add: mask_positive_def)
    with assms(4) show "map2 mask_positive bs ds ! i \<noteq> []" by auto
  qed
  show "list_all2 (\<lambda>xr yr. length xr = length yr \<and> yr \<noteq> []) (map rev bs)
           (map2 mask_negative bs ds)"
    unfolding list_all2_conv_all_nth
  proof (intro conjI allI impI)
    show "length (map rev bs) = length (map2 mask_negative bs ds)" using assms(1) by simp
  next
    fix i assume i: "i < length (map rev bs)"
    then have i': "i < length bs" by simp
    with assms(1) len [OF i'] assms(4)
    show "length (map rev bs ! i) = length (map2 mask_negative bs ds ! i)"
      by (simp add: mask_negative_def)
  next
    fix i assume i: "i < length (map rev bs)"
    then have i': "i < length bs" by simp
    with assms(1) len [OF i'] assms(4)
    have "length (map2 mask_negative bs ds ! i) = n" by (simp add: mask_negative_def)
    with assms(4) show "map2 mask_negative bs ds ! i \<noteq> []" by auto
  qed
qed

lemma fre_characterised:
  assumes "shape y \<noteq> []"
    and "last (shape y) \<noteq> 0
         \<Longrightarrow> list_all2 (\<lambda>xr yr. length xr = length yr \<and> yr \<noteq> []) (rows x) (rows y)"
  shows "(find_rising_edge x y threshold interp = Inl ValueError)
           = (last (shape y) = 0
              \<or> (interp \<and> broadcast_shapes (squeezed_shape (butlast (shape y)) threshold)
                              (butlast (shape y)) = None))
         \<and> find_rising_edge x y threshold interp \<noteq> Inl IndexError"
proof (cases "last (shape y) = 0")
  case True
  then show ?thesis by (simp add: fre_empty_axis)
next
  case False
  from fre_result [OF assms(1) False assms(2) [OF False], of threshold interp] False
  show ?thesis by simp
qed

lemma case_sum_error:
  "((case r of Inl e \<Rightarrow> Inl e | Inr v \<Rightarrow> Inr (f v)) = Inl e') = (r = Inl e')"
  by (cases r) auto

lemma ic_result:
  assumes "well_formed (bias s)" and "well_formed (dvdi s)" and "shape (bias s) = shape (dvdi s)"
  shows "(ic_positive s threshold interp = Inl ValueError)
           = (last (shape (bias s)) = 0
              \<or> (interp \<and> broadcast_shapes (squeezed_shape (butlast (shape (bias s))) threshold)
                              (butlast (shape (bias s))) = None))"
    and "ic_positive s threshold interp \<noteq> Inl IndexError"
    and "(ic_negative s threshold interp = Inl ValueError)
           = (last (shape (bias s)) = 0
              \<or> (interp \<and> broadcast_shapes (squeezed_shape (butlast (shape (bias s))) threshold)
                              (butlast (shape (bias s))) = None))"
    and "ic_negative s threshold interp \<noteq> Inl IndexError"
proof -
  let ?yp = "\<lparr>shape = shape (bias s), rows = map2 mask_positive (rows (bias s)) (rows (dvdi s))\<rparr>"
  let ?yn = "\<lparr>shape = shape (bias s), rows = map2 mask_negative (rows (bias s)) (rows (dvdi s))\<rparr>"
  let ?xn = "\<lparr>shape = shape (bias s), rows = map rev (rows (bias s))\<rparr>"
  from assms have sh: "shape (bias s) \<noteq> []"
    and len: "length (rows (bias s)) = length (rows (dvdi s))"
    and rb: "list_all (\<lambda>r. length r = last (shape (bias s))) (rows (bias s))"
    and rd: "list_all (\<lambda>r. length r = last (shape (bias s))) (rows (dvdi s))"
    by (simp_all add: well_formed_def)
  have p: "(find_rising_edge (bias s) ?yp threshold interp = Inl ValueError)
           = (last (shape (bias s)) = 0
              \<or> (interp \<and> broadcast_shapes (squeezed_shape (butlast (shape (bias s))) threshold)
                              (butlast (shape (bias s))) = None))
         \<and> find_rising_edge (bias s) ?yp threshold interp \<noteq> Inl IndexError"
    using fre_characterised [of ?yp "bias s" threshold interp] sh masked_rows(1) [OF len rb rd]
    by simp
  have n: "(find_rising_edge ?xn ?yn threshold interp = Inl ValueError)
           = (last (shape (bias s)) = 0
              \<or> (interp \<and> broadcast_shapes (squeezed_shape (butlast (shape (bias s))) threshold)
                              (butlast (shape (bias s))) = None))
         \<and> find_rising_edge ?xn ?yn threshold interp \<noteq> Inl IndexError"
    using fre_characterised [of ?yn ?xn threshold interp] sh masked_rows(2) [OF len rb rd]
    by simp
  from p show "(ic_positive s threshold interp = Inl ValueError)
           = (last (shape (bias s)) = 0
              \<or> (interp \<and> broadcast_shapes (squeezed_shape (butlast (shape (bias s))) threshold)
                              (butlast (shape (bias s))) = None))"
    by (simp add: ic_positive_def case_sum_error)
  from p show "ic_positive s threshold interp \<noteq> Inl IndexError"
    by (simp add: ic_positive_def case_sum_error)
  from n show "(ic_negative s threshold interp = Inl ValueError)
           = (last (shape (bias s)) = 0
              \<or> (interp \<and> broadcast_shapes (squeezed_shape (butlast (shape (bias s))) threshold)
                              (butlast (shape (bias s))) = None))"
    by (simp add: ic_negative_def case_sum_error)
  from n show "ic_negative s threshold interp \<noteq> Inl IndexError"
    by (simp add: ic_negative_def case_sum_error)
qed


subsection \<open>Main results\<close>

text \<open>
  C2. For \<open>bias = [-2,-1,0,1,2,3]\<close>, \<open>dvdi = [5,5,0,0,5,5]\<close>, threshold 2.5, no
  interpolation and offset 0, \<^verbatim>\<open>extract_switching_current\<close> returns 2 for the positive
  side and -1 for the negative side.
\<close>

theorem C2_example_switching_currents:
  "fst (extract_switching_current ''positive'' (Some (Fin (5 / 2))) False (Fin 0)
          \<lparr>bias = \<lparr>shape = [6], rows = [[Fin (- 2), Fin (- 1), Fin 0, Fin 1, Fin 2, Fin 3]]\<rparr>,
           dvdi = \<lparr>shape = [6], rows = [[Fin 5, Fin 5, Fin 0, Fin 0, Fin 5, Fin 5]]\<rparr>\<rparr>)
     = Inr (Branch (Nd [] [Fin 2]))
   \<and> fst (extract_switching_current ''negative'' (Some (Fin (5 / 2))) False (Fin 0)
          \<lparr>bias = \<lparr>shape = [6], rows = [[Fin (- 2), Fin (- 1), Fin 0, Fin 1, Fin 2, Fin 3]]\<rparr>,
           dvdi = \<lparr>shape = [6], rows = [[Fin 5, Fin 5, Fin 0, Fin 0, Fin 5, Fin 5]]\<rparr>\<rparr>)
     = Inr (Branch (Nd [] [Fin (- 1)]))"
  by (simp add: eval_defs)

text \<open>
  C3. The claim is that the caller's \<open>bias\<close> and \<open>dvdi\<close> hold after the call what they
  held before. With \<open>bias = [0, 1]\<close>, \<open>dvdi = [1, 3]\<close> and offset 1 the call returns the
  switching current 1 and leaves \<open>dvdi = [0, 2]\<close> in the caller's array.
\<close>

theorem C3_dvdi_overwritten:
  "extract_switching_current ''positive'' (Some (Fin 1)) False (Fin 1)
       \<lparr>bias = \<lparr>shape = [2], rows = [[Fin 0, Fin 1]]\<rparr>,
        dvdi = \<lparr>shape = [2], rows = [[Fin 1, Fin 3]]\<rparr>\<rparr>
     = (Inr (Branch (Nd [] [Fin 1])),
        \<lparr>bias = \<lparr>shape = [2], rows = [[Fin 0, Fin 1]]\<rparr>,
         dvdi = \<lparr>shape = [2], rows = [[Fin 0, Fin 2]]\<rparr>\<rparr>)"
  by (simp add: eval_defs)

text \<open>
  C4. With \<open>side = "both"\<close> the function returns a two-row array: row 0 is the result of
  the call with \<open>side = "negative"\<close> and row 1 the result of the call with
  \<open>side = "positive"\<close>, each on the same arrays as they were before the call. The call
  with "both" returns exactly when the two single calls return.
\<close>

theorem C4_both_stacks_negative_then_positive:
  "(fst (extract_switching_current ''both'' threshold interp offset s) = Inr out)
     = (\<exists>ic_n ic_p. out = Stacked [ic_n, ic_p]
          \<and> fst (extract_switching_current ''negative'' threshold interp offset s) = Inr (Branch ic_n)
          \<and> fst (extract_switching_current ''positive'' threshold interp offset s) = Inr (Branch ic_p))"
  by (auto simp: extract_switching_current_def Let_def split: sum.splits)

text \<open>
  C1. The claim is that a branch on which \<open>dvdi\<close> never exceeds the threshold yields
  exactly 0. On the flat curve \<open>dvdi = 0\<close> over \<open>bias = [-2,-1,0,1,2,3]\<close> with threshold
  2.5 no sample exceeds the threshold on either branch. Without interpolation the
  function returns -2 for the positive branch and 3 for the negative branch: the
  comparison of line 99 is false everywhere, \<^verbatim>\<open>argmax\<close> answers 0, and the bias sample at
  position 0 of the scan is returned, which on the positive branch lies in the region
  that line 63 masks out. With interpolation the same input yields 0 on both branches,
  through not-a-number and \<^verbatim>\<open>nan_to_num\<close>, as the claim says.
\<close>

theorem C1_flat_curve_no_edge:
  "fst (extract_switching_current ''positive'' (Some (Fin (5 / 2))) False (Fin 0)
          \<lparr>bias = \<lparr>shape = [6], rows = [[Fin (- 2), Fin (- 1), Fin 0, Fin 1, Fin 2, Fin 3]]\<rparr>,
           dvdi = \<lparr>shape = [6], rows = [[Fin 0, Fin 0, Fin 0, Fin 0, Fin 0, Fin 0]]\<rparr>\<rparr>)
     = Inr (Branch (Nd [] [Fin (- 2)]))
   \<and> fst (extract_switching_current ''negative'' (Some (Fin (5 / 2))) False (Fin 0)
          \<lparr>bias = \<lparr>shape = [6], rows = [[Fin (- 2), Fin (- 1), Fin 0, Fin 1, Fin 2, Fin 3]]\<rparr>,
           dvdi = \<lparr>shape = [6], rows = [[Fin 0, Fin 0, Fin 0, Fin 0, Fin 0, Fin 0]]\<rparr>\<rparr>)
     = Inr (Branch (Nd [] [Fin 3]))
   \<and> fst (extract_switching_current ''positive'' (Some (Fin (5 / 2))) True (Fin 0)
          \<lparr>bias = \<lparr>shape = [6], rows = [[Fin (- 2), Fin (- 1), Fin 0, Fin 1, Fin 2, Fin 3]]\<rparr>,
           dvdi = \<lparr>shape = [6], rows = [[Fin 0, Fin 0, Fin 0, Fin 0, Fin 0, Fin 0]]\<rparr>\<rparr>)
     = Inr (Branch (Nd [] [Fin 0]))
   \<and> fst (extract_switching_current ''negative'' (Some (Fin (5 / 2))) True (Fin 0)
          \<lparr>bias = \<lparr>shape = [6], rows = [[Fin (- 2), Fin (- 1), Fin 0, Fin 1, Fin 2, Fin 3]]\<rparr>,
           dvdi = \<lparr>shape = [6], rows = [[Fin 0, Fin 0, Fin 0, Fin 0, Fin 0, Fin 0]]\<rparr>\<rparr>)
     = Inr (Branch (Nd [] [Fin 0]))"
  by (simp add: eval_defs)











section \<open>Properties of the Fraunhofer utilities\<close>

subsection \<open>Auxiliary facts on mirroring\<close>

lemma np_argmin_less: "xs \<noteq> [] \<Longrightarrow> np_argmin xs < length xs"
proof -
  assume "xs \<noteq> []"
  then have "min_list xs \<in> set xs" by (simp add: min_list_Min)
  then have "takeWhile (\<lambda>v. v \<noteq> min_list xs) xs \<noteq> xs"
    by auto
  moreover have "length (takeWhile (\<lambda>v. v \<noteq> min_list xs) xs) \<le> length xs"
    by (rule length_takeWhile_le)
  ultimately show ?thesis unfolding np_argmin_def
    by (metis le_neq_implies_less takeWhile_eq_take take_all order_refl)
qed

lemma np_argmin_nth: "xs \<noteq> [] \<Longrightarrow> xs ! np_argmin xs = min_list xs"
proof -
  assume a: "xs \<noteq> []"
  from np_argmin_less [OF a] have "np_argmin xs < length xs" .
  from nth_length_takeWhile [OF this [unfolded np_argmin_def]]
  show ?thesis by (simp add: np_argmin_def)
qed

lemma np_argmin_abs_least:
  assumes "field \<noteq> []" and "v \<in> set field"
  shows "\<bar>field ! np_argmin (map abs field)\<bar> \<le> \<bar>v\<bar>"
proof -
  let ?k = "np_argmin (map abs field)"
  from assms(1) have ne: "map abs field \<noteq> []" by simp
  from np_argmin_less [OF ne] have k: "?k < length field" by simp
  from np_argmin_nth [OF ne] k have "\<bar>field ! ?k\<bar> = min_list (map abs field)" by simp
  also have "\<dots> = Min (set (map abs field))" using ne by (rule min_list_Min)
  also have "\<dots> \<le> \<bar>v\<bar>" using assms(2) by (intro Min_le) auto
  finally show ?thesis .
qed

lemma ascending_set:
  "ascending field ic = (field1, ic1) \<Longrightarrow> set field1 = set field \<and> length field1 = length field"
  by (auto simp: ascending_def split: if_splits)

lemma kept_side_pivot:
  assumes "field \<noteq> []" and "kept_side field ic = (side, f, i)"
  shows "f \<noteq> [] \<and> (if side = ''positive'' then hd f else last f) = field ! np_argmin (map abs field)"
proof -
  let ?k = "np_argmin (map abs field)"
  from assms(1) have "map abs field \<noteq> []" by simp
  from np_argmin_less [OF this] have k: "?k < length field" by simp
  consider (a) "?k = 0" | (b) "?k \<noteq> 0" "?k = length field - 1"
    | (c) "?k \<noteq> 0" "?k \<noteq> length field - 1" "length (take ?k field) > length (drop (?k + 1) field)"
    | (d) "?k \<noteq> 0" "?k \<noteq> length field - 1" "\<not> length (take ?k field) > length (drop (?k + 1) field)"
    by blast
  then show ?thesis
  proof cases
    case a
    with assms show ?thesis by (auto simp: kept_side_def hd_conv_nth)
  next
    case b
    with assms show ?thesis by (auto simp: kept_side_def last_conv_nth)
  next
    case c
    from assms(2) have "(''negative'', take (?k + 1) field, take (?k + 1) ic) = (side, f, i)"
      unfolding kept_side_def Let_def by (simp only: c if_False if_True)
    then have f: "side = ''negative''" "f = take (Suc ?k) field" by simp_all
    from k have "f \<noteq> []" using f assms(1) by auto
    moreover from k have "last (take (Suc ?k) field) = field ! ?k"
      by (simp add: take_Suc_conv_app_nth)
    ultimately show ?thesis using f by simp
  next
    case d
    from assms(2) have "(''positive'', drop ?k field, drop ?k ic) = (side, f, i)"
      unfolding kept_side_def Let_def by (simp only: d if_False if_True)
    then have f: "side = ''positive''" "f = drop ?k field" by simp_all
    from k have "f \<noteq> []" using f by auto
    moreover from k have "hd (drop ?k field) = field ! ?k"
      by (simp add: hd_drop_conv_nth)
    ultimately show ?thesis using f by simp
  qed
qed

lemma mirror_field_shape:
  assumes "f \<noteq> []" and "mirror side f i = (field', ic')"
  shows "\<exists>A T. length A = length T
           \<and> field' = A @ (if side = ''positive'' then hd f else last f) # T
           \<and> map uminus (rev field') = A @ (- (if side = ''positive'' then hd f else last f)) # T"
proof (cases "side = ''positive''")
  case True
  from assms(1) obtain a t where f: "f = a # t" by (cases f) auto
  from assms(2) True f have e: "field' = map uminus (rev t) @ a # t"
    by (simp add: mirror_def)
  have r: "map uminus (rev (map uminus (rev t) @ a # t)) = map uminus (rev t) @ (- a) # t"
    by (simp add: rev_map comp_def)
  show ?thesis
    apply (rule exI [where x = "map uminus (rev t)"])
    apply (rule exI [where x = t])
    using True f e r apply simp
    done
next
  case False
  from assms(1) obtain b a where f: "f = b @ [a]" by (cases f rule: rev_cases) auto
  from assms(2) False f have e: "field' = b @ a # map uminus (rev b)"
    by (simp add: mirror_def)
  have r: "map uminus (rev (b @ a # map uminus (rev b))) = b @ (- a) # map uminus (rev b)"
    by (simp add: rev_map comp_def)
  show ?thesis
    apply (rule exI [where x = b])
    apply (rule exI [where x = "map uminus (rev b)"])
    using False f e r apply simp
    done
qed

lemma mirror_ic_palindrome:
  assumes "mirror side f i = (field', ic')"
  shows "rev ic' = ic'"
proof (cases "side = ''positive''")
  case True
  with assms have e: "ic' = rev (tl i) @ i" by (simp add: mirror_def)
  show ?thesis
  proof (cases i)
    case Nil
    with e show ?thesis by simp
  next
    case (Cons c t)
    with e show ?thesis by simp
  qed
next
  case False
  with assms have e: "ic' = i @ rev (butlast i)" by (simp add: mirror_def)
  show ?thesis
  proof (cases i rule: rev_cases)
    case Nil
    with e show ?thesis by simp
  next
    case (snoc b c)
    with e show ?thesis by simp
  qed
qed

lemma palindrome_nth:
  assumes "rev xs = xs" and "k < length xs"
  shows "xs ! k = xs ! (length xs - 1 - k)"
proof -
  from assms(2) have "rev xs ! k = xs ! (length xs - Suc k)" by (rule rev_nth)
  with assms(1) show ?thesis by simp
qed

lemma symmetrize_shape:
  assumes "symmetrize_fraunhofer field ic = Inr (field', ic')"
  shows "\<exists>A p T. length A = length T \<and> field' = A @ p # T
           \<and> map uminus (rev field') = A @ (- p) # T
           \<and> p \<in> set field \<and> (\<forall>v\<in>set field. \<bar>p\<bar> \<le> \<bar>v\<bar>)"
    and "rev ic' = ic'"
proof -
  from assms have len: "2 \<le> length field"
    by (auto simp: symmetrize_fraunhofer_def split: if_splits)
  obtain field1 ic1 where asc: "ascending field ic = (field1, ic1)"
    by (cases "ascending field ic")
  obtain side f i where ks: "kept_side field1 ic1 = (side, f, i)"
    by (cases "kept_side field1 ic1") auto
  from assms len asc ks have m: "mirror side f i = (field', ic')"
    by (simp add: symmetrize_fraunhofer_def)
  from ascending_set [OF asc] len have s1: "set field1 = set field" and ne: "field1 \<noteq> []"
    by auto
  let ?p = "field1 ! np_argmin (map abs field1)"
  from kept_side_pivot [OF ne ks]
  have f: "f \<noteq> []" and p: "(if side = ''positive'' then hd f else last f) = ?p"
    by simp_all
  from ne have "map abs field1 \<noteq> []" by simp
  from np_argmin_less [OF this] have "?p \<in> set field1" by simp
  with s1 have pin: "?p \<in> set field" by simp
  have least: "\<forall>v\<in>set field. \<bar>?p\<bar> \<le> \<bar>v\<bar>"
    using np_argmin_abs_least [OF ne] s1 by blast
  from mirror_field_shape [OF f m] obtain A T
    where "length A = length T" "field' = A @ ?p # T"
      "map uminus (rev field') = A @ (- ?p) # T"
    unfolding p by blast
  with pin least
  show "\<exists>A p T. length A = length T \<and> field' = A @ p # T
           \<and> map uminus (rev field') = A @ (- p) # T
           \<and> p \<in> set field \<and> (\<forall>v\<in>set field. \<bar>p\<bar> \<le> \<bar>v\<bar>)"
    by blast
  from m show "rev ic' = ic'" by (rule mirror_ic_palindrome)
qed

subsection \<open>Main results on the Fraunhofer utilities\<close>

text \<open>
  C7. The claim is that every output \<open>(field', ic')\<close> of \<^verbatim>\<open>symmetrize_fraunhofer\<close> is
  mirror-symmetric at every index. What holds: \<open>ic'[k] = ic'[len-1-k]\<close> at every index;
  \<open>field'[k] = -field'[len-1-k]\<close> at every index but the middle one; the length is odd and
  the middle sample is the sample of the input field of least magnitude, about which the
  kept side is reflected; so the field is antisymmetric at the middle too exactly when that
  sample is 0.
\<close>

theorem C7_symmetric_except_at_pivot:
  assumes "symmetrize_fraunhofer field ic = Inr (field', ic')"
  shows "(\<forall>k < length ic'. ic' ! k = ic' ! (length ic' - 1 - k))
    \<and> (\<forall>k < length field'. k \<noteq> length field' - 1 - k
           \<longrightarrow> field' ! k = - field' ! (length field' - 1 - k))
    \<and> odd (length field')
    \<and> field' ! (length field' div 2) \<in> set field
    \<and> (\<forall>v \<in> set field. \<bar>field' ! (length field' div 2)\<bar> \<le> \<bar>v\<bar>)
    \<and> ((\<forall>k < length field'. field' ! k = - field' ! (length field' - 1 - k))
          \<longleftrightarrow> field' ! (length field' div 2) = 0)"
proof -
  from symmetrize_shape(1) [OF assms] obtain A p T
    where lenAT: "length A = length T" and fe: "field' = A @ p # T"
      and re: "map uminus (rev field') = A @ (- p) # T"
      and pin: "p \<in> set field" and least: "\<forall>v\<in>set field. \<bar>p\<bar> \<le> \<bar>v\<bar>"
    by blast
  define n where "n = length T"
  from fe lenAT have len: "length field' = 2 * n + 1" by (simp add: n_def)
  then have mid: "length field' div 2 = n" by simp
  from fe lenAT have pmid: "field' ! n = p" by (simp add: nth_append n_def)
  have neg: "- field' ! (length field' - 1 - k) = (A @ (- p) # T) ! k" if k: "k < length field'" for k
  proof -
    from k have "(map uminus (rev field')) ! k = - (rev field' ! k)" by simp
    also from k have "rev field' ! k = field' ! (length field' - Suc k)" by (rule rev_nth)
    finally show ?thesis unfolding re by simp
  qed
  have off: "field' ! k = - field' ! (length field' - 1 - k)"
    if k: "k < length field'" and kn: "k \<noteq> n" for k
  proof -
    from kn lenAT have "(A @ p # T) ! k = (A @ (- p) # T) ! k"
      by (simp add: nth_append nth_Cons' n_def)
    with neg [OF k] show ?thesis unfolding fe [symmetric] by simp
  qed
  have c1: "\<forall>k < length ic'. ic' ! k = ic' ! (length ic' - 1 - k)"
  proof (intro allI impI)
    fix k assume "k < length ic'"
    with symmetrize_shape(2) [OF assms] show "ic' ! k = ic' ! (length ic' - 1 - k)"
      by (rule palindrome_nth)
  qed
  have c2: "\<forall>k < length field'. k \<noteq> length field' - 1 - k
           \<longrightarrow> field' ! k = - field' ! (length field' - 1 - k)"
  proof (intro allI impI)
    fix k assume k: "k < length field'" and d: "k \<noteq> length field' - 1 - k"
    from d k len have "k \<noteq> n" by arith
    with k show "field' ! k = - field' ! (length field' - 1 - k)" by (rule off)
  qed
  have c3: "odd (length field')" unfolding len by simp
  have c4: "field' ! (length field' div 2) \<in> set field" unfolding mid pmid by (rule pin)
  have c5: "\<forall>v \<in> set field. \<bar>field' ! (length field' div 2)\<bar> \<le> \<bar>v\<bar>"
    unfolding mid pmid by (rule least)
  have nn: "length field' - 1 - n = n" unfolding len by simp
  have c6: "(\<forall>k < length field'. field' ! k = - field' ! (length field' - 1 - k))
          \<longleftrightarrow> field' ! (length field' div 2) = 0"
  proof
    assume a: "\<forall>k < length field'. field' ! k = - field' ! (length field' - 1 - k)"
    have "n < length field'" unfolding len by simp
    with a have "field' ! n = - field' ! (length field' - 1 - n)" by blast
    then have "field' ! n = - field' ! n" unfolding nn .
    then show "field' ! (length field' div 2) = 0" unfolding mid by simp
  next
    assume z: "field' ! (length field' div 2) = 0"
    show "\<forall>k < length field'. field' ! k = - field' ! (length field' - 1 - k)"
    proof (intro allI impI)
      fix k assume k: "k < length field'"
      show "field' ! k = - field' ! (length field' - 1 - k)"
      proof (cases "k = n")
        case True
        from z have "field' ! n = 0" unfolding mid .
        then show ?thesis unfolding True nn by simp
      next
        case False
        with k show ?thesis by (rule off)
      qed
    qed
  qed
  show ?thesis
    by (intro conjI) (rule c1, rule c2, rule c3, rule c4, rule c5, rule c6)
qed

text \<open>
  The field \<open>[-3,-1,1,3,5]\<close> has no sample at 0: the positive side \<open>[-1,1,3,5]\<close> is kept
  and reflected about -1, and the middle sample of the output, -1, is not its own negative.
\<close>

theorem C7_midpoint_counterexample:
  "symmetrize_fraunhofer [- 3, - 1, 1, 3, 5] [1, 4, 4, 1, 0]
     = Inr ([- 5, - 3, - 1, - 1, 1, 3, 5], [0, 1, 4, 4, 4, 1, 0])
   \<and> [- 5, - 3, - 1, - 1, 1, 3, 5 :: real] ! 3 \<noteq> - ([- 5, - 3, - 1, - 1, 1, 3, 5] ! (7 - 1 - 3))"
  by (simp add: symmetrize_fraunhofer_def ascending_def kept_side_def mirror_def np_argmin_def)

text \<open>
  C8. The claim is that for \<open>field = [-3,-2,-1,0,1,2]\<close> the negative side is kept and the
  output has length 2 * 5 - 1 = 9. What holds: the negative side is kept; the kept segment
  is \<open>[-3,-2,-1,0]\<close>, of length 4, and the output arrays have length 2 * 4 - 1 = 7, for
  every \<open>ic\<close> of six samples.
\<close>

theorem C8_example_length_is_seven:
  "symmetrize_fraunhofer [- 3, - 2, - 1, 0, 1, 2] [a, b, c, d, e, g]
     = Inr ([- 3, - 2, - 1, 0, 1, 2, 3], [a, b, c, d, c, b, a])
   \<and> kept_side [- 3, - 2, - 1, 0, 1, 2] [a, b, c, d, e, g]
     = (''negative'', [- 3, - 2, - 1, 0], [a, b, c, d])
   \<and> length [- 3, - 2, - 1, 0, 1, 2, 3 :: real] = 2 * length [- 3, - 2, - 1, 0 :: real] - 1"
  by (simp add: symmetrize_fraunhofer_def ascending_def kept_side_def mirror_def np_argmin_def)

theorem C8_length_nine_counterexample:
  "symmetrize_fraunhofer [- 3, - 2, - 1, 0, 1, 2] [1, 2, 3, 4, 3, 2]
     = Inr ([- 3, - 2, - 1, 0, 1, 2, 3], [1, 2, 3, 4, 3, 2, 1])
   \<and> length [- 3, - 2, - 1, 0, 1, 2, 3 :: real] \<noteq> 9
   \<and> length [1, 2, 3, 4, 3, 2, 1 :: real] \<noteq> 9"
  by (simp add: symmetrize_fraunhofer_def ascending_def kept_side_def mirror_def np_argmin_def)

theorem C7_symmetric_except_at_pivot_witness:
  "symmetrize_fraunhofer [- 3, - 2, - 1, 0, 1, 2] [1, 2, 3, 4, 3, 2]
     = Inr ([- 3, - 2, - 1, 0, 1, 2, 3], [1, 2, 3, 4, 3, 2, 1])
   \<and> [- 3, - 2, - 1, 0, 1, 2, 3 :: real] ! 0 = - ([- 3, - 2, - 1, 0, 1, 2, 3] ! 6)
   \<and> [1, 2, 3, 4, 3, 2, 1 :: real] ! 1 = [1, 2, 3, 4, 3, 2, 1] ! 5
   \<and> odd (length [- 3, - 2, - 1, 0, 1, 2, 3 :: real])"
proof -
  let ?F' = "[- 3, - 2, - 1, 0, 1, 2, 3 :: real]" and ?I' = "[1, 2, 3, 4, 3, 2, 1 :: real]"
  have e: "symmetrize_fraunhofer [- 3, - 2, - 1, 0, 1, 2] [1, 2, 3, 4, 3, 2] = Inr (?F', ?I')"
    by (simp add: symmetrize_fraunhofer_def ascending_def kept_side_def mirror_def np_argmin_def)
  note t = C7_symmetric_except_at_pivot [OF e]
  from t have a: "\<forall>k < length ?I'. ?I' ! k = ?I' ! (length ?I' - 1 - k)"
    by (elim conjE)
  from t have b: "\<forall>k < length ?F'. k \<noteq> length ?F' - 1 - k
      \<longrightarrow> ?F' ! k = - ?F' ! (length ?F' - 1 - k)"
    by (elim conjE)
  from t have c: "odd (length ?F')"
    by (elim conjE)
  from a [rule_format, of 1] have a1: "?I' ! 1 = ?I' ! 5" by simp
  from b [rule_format, of 0] have b0: "?F' ! 0 = - (?F' ! 6)" by simp
  from e a1 b0 c show ?thesis by (intro conjI)
qed

lemma py_slice_from_0: "0 \<le> stop \<Longrightarrow> py_slice xs 0 stop = take (nat stop) xs"
proof -
  assume s: "0 \<le> stop"
  have "take (nat (min stop (int (length xs)))) xs = take (nat stop) xs"
  proof (cases "stop \<le> int (length xs)")
    case True
    then show ?thesis by (simp add: min_def)
  next
    case False
    then have "length xs \<le> nat stop" by simp
    with False show ?thesis by (simp add: min_def)
  qed
  with s show ?thesis by (simp add: py_slice_def Let_def)
qed

text \<open>
  C9. In \<^verbatim>\<open>find_fraunhofer_center\<close>, when the window around the peak would start before
  the array (\<open>max_loc - width_index < 0\<close>), the start is clamped to 0, nothing is raised,
  and the window is \<open>field[0 : max_loc + width_index + 1]\<close>, which is what the fit
  receives and what the result carries.
\<close>

theorem C9_window_clamped_at_start:
  assumes "peak_location field ic field_lim = Inr max_loc"
    and "int max_loc - width_index_of peak_widths ic max_loc < 0"
  shows "start_index_of max_loc (width_index_of peak_widths ic max_loc) = 0
    \<and> py_slice field (start_index_of max_loc (width_index_of peak_widths ic max_loc))
          (int max_loc + width_index_of peak_widths ic max_loc + 1)
        = py_slice field 0 (int max_loc + width_index_of peak_widths ic max_loc + 1)
    \<and> py_slice field 0 (int max_loc + width_index_of peak_widths ic max_loc + 1)
        = take (nat (int max_loc + width_index_of peak_widths ic max_loc + 1)) field
    \<and> find_fraunhofer_center peak_widths gaussian_fit center_of field ic field_lim True
        = Inr (FitResult
                 (gaussian_fit
                    (py_slice ic 0 (int max_loc + width_index_of peak_widths ic max_loc + 1))
                    (py_slice field 0 (int max_loc + width_index_of peak_widths ic max_loc + 1)))
                 (py_slice field 0 (int max_loc + width_index_of peak_widths ic max_loc + 1)))
    \<and> find_fraunhofer_center peak_widths gaussian_fit center_of field ic field_lim False
        = Inr (Center (center_of
                 (gaussian_fit
                    (py_slice ic 0 (int max_loc + width_index_of peak_widths ic max_loc + 1))
                    (py_slice field 0 (int max_loc + width_index_of peak_widths ic max_loc + 1)))))"
proof -
  define w where "w = width_index_of peak_widths ic max_loc"
  from assms(2) have neg: "int max_loc - w < 0" by (simp add: w_def)
  then have st: "start_index_of max_loc w = 0" by (simp add: start_index_of_def)
  from neg have "0 \<le> int max_loc + w + 1" by simp
  then have tk: "py_slice field 0 (int max_loc + w + 1) = take (nat (int max_loc + w + 1)) field"
    by (rule py_slice_from_0)
  have t: "find_fraunhofer_center peak_widths gaussian_fit center_of field ic field_lim True
        = Inr (FitResult (gaussian_fit (py_slice ic 0 (int max_loc + w + 1))
                 (py_slice field 0 (int max_loc + w + 1)))
               (py_slice field 0 (int max_loc + w + 1)))"
    using assms(1) st by (simp add: find_fraunhofer_center_def Let_def w_def)
  have f: "find_fraunhofer_center peak_widths gaussian_fit center_of field ic field_lim False
        = Inr (Center (center_of (gaussian_fit (py_slice ic 0 (int max_loc + w + 1))
                 (py_slice field 0 (int max_loc + w + 1)))))"
    using assms(1) st by (simp add: find_fraunhofer_center_def Let_def w_def)
  from st tk t f show ?thesis unfolding w_def by simp
qed

theorem C9_window_clamped_at_start_witness:
  "peak_location [0, 1, 2, 3, 4] [5, 4, 3, 2, 1] None = Inr 0
   \<and> int 0 - width_index_of (\<lambda>ic max_loc. 4) [5, 4, 3, 2, 1] 0 < 0
   \<and> start_index_of 0 (width_index_of (\<lambda>ic max_loc. 4) [5, 4, 3, 2, 1] 0) = 0
   \<and> find_fraunhofer_center (\<lambda>ic max_loc. 4) (\<lambda>subset_ic subset_field. (subset_ic, subset_field))
         (\<lambda>out. 0) [0, 1, 2, 3, 4] [5, 4, 3, 2, 1] None True
       = Inr (FitResult ([5, 4, 3, 2], [0, 1, 2, 3]) [0, 1, 2, 3])"
proof -
  have p: "peak_location [0, 1, 2, 3, 4] [5, 4, 3, 2, 1] None = Inr 0"
    by (simp add: peak_location_def np_argmax_def)
  have w: "width_index_of (\<lambda>ic max_loc. 4) [5, 4, 3, 2, 1] 0 = 3"
    by (simp add: width_index_of_def py_round_def)
  have n: "int 0 - width_index_of (\<lambda>ic max_loc. 4) [5, 4, 3, 2, 1] 0 < 0"
    by (simp add: w)
  from C9_window_clamped_at_start [OF p n,
      of "\<lambda>subset_ic subset_field. (subset_ic, subset_field)" "\<lambda>out. 0"] p n
  show ?thesis by (simp add: w py_slice_def)
qed

end
